theory Spec2Isabelle
  imports Main
begin

section \<open>TabDatabase: connection acquisition and schema versioning\<close>

text \<open>
  A shallow embedding of \<^verbatim>\<open>src/lib/TabDatabase.js\<close>. The module keeps one cached
  promise of an Sqlite connection, opens the store on first access, creates or migrates
  the schema and registers a teardown observer that closes the connection.

  The storage engine (\<^verbatim>\<open>Sqlite.jsm\<close>), the task and promise libraries, the
  observer service and the directory service are collaborators outside the repository.
  The engine is a parameter of the model: a record saying which of its calls reject, and
  whether the scope the module runs in binds the name \<^verbatim>\<open>Ci\<close>, which the file
  reads and does not bind. The calls of \<^verbatim>\<open>addObserver\<close> and
  \<^verbatim>\<open>removeObserver\<close> are taken to return normally.
\<close>

subsection \<open>Schema catalog\<close>

definition DB_VERSION :: int where
  "DB_VERSION = 1"

record index_def =
  table :: string
  columns :: "string list"

record schema =
  tables :: "(string \<times> string) list"
  indices :: "(string \<times> index_def) list"

text \<open>
  The object literals of \<^verbatim>\<open>SCHEMA\<close> are association lists in the order the keys are
  written, which is the order \<^verbatim>\<open>for (let name in ...)\<close> visits them.
\<close>

definition SCHEMA :: schema where
  "SCHEMA = \<lparr>
     tables = [
       (''squirrel_tabs'',
          ''CREATE TABLE squirrel_tabs ('' @
          ''  id INTEGER PRIMARY KEY'' @
          '', session_id INTEGER NOT NULL'' @
          '', url TEXT NOT NULL'' @
          '', title TEXT NOT NULL'' @
          '', timestamp INTEGER NOT NULL'' @
          '')''),
       (''squirrel_sessions'',
          ''CREATE TABLE squirrel_sessions ('' @
          ''  id INTEGER PRIMARY KEY'' @
          '', timestamp INTEGER NOT NULL'' @
          '')''),
       (''squirrel_sessions_tabs'',
          ''CREATE TABLE squirrel_sessions_tabs ('' @
          ''  tab_id INTEGER NOT NULL'' @
          '', session_id INTEGER NOT NULL'' @
          '')'')],
     indices = [
       (''squirrel_tabs_timestamp_index'',
          \<lparr>table = ''squirrel_tabs'', columns = [''timestamp'']\<rparr>),
       (''squirrel_sessions_timestamp_index'',
          \<lparr>table = ''squirrel_sessions'', columns = [''timestamp'']\<rparr>),
       (''squirrel_sessions_tabs_tab_index'',
          \<lparr>table = ''squirrel_sessions_tabs'', columns = [''tab_id'']\<rparr>),
       (''squirrel_sessions_tabs_session_index'',
          \<lparr>table = ''squirrel_sessions_tabs'', columns = [''session_id'']\<rparr>)]\<rparr>"

subsection \<open>The storage engine\<close>

datatype error = EngineError string | TypeError string | ReferenceError string

text \<open>
  What the engine does with each call it receives: \<open>None\<close> when the call's promise
  resolves, \<open>Some e\<close> when it rejects with \<open>e\<close>. The engine answers every call it
  has been given, in the order given; a call that rejects has no effect on the store and
  does not stop the calls issued after it. \<^verbatim>\<open>connection.close()\<close> always resolves.

  \<open>Ci_bound\<close> says whether the name \<^verbatim>\<open>Ci\<close> is bound where the module runs. The
  file takes only \<^verbatim>\<open>Cu\<close> from \<^verbatim>\<open>require("chrome")\<close> and binds \<^verbatim>\<open>Ci\<close>
  nowhere, so for the module as the file writes it \<open>Ci_bound\<close> is false; it is true
  only where the surrounding scope supplies the name.
\<close>

record engine =
  open_outcome :: "error option"
  version_outcome :: "error option"
  execute_outcome :: "string \<Rightarrow> error option"
  stamp_outcome :: "int \<Rightarrow> error option"
  Ci_bound :: bool

datatype op = OpGetSchemaVersion | OpExecute string | OpSetSchemaVersion int | OpClose

text \<open>
  The store behind a connection: its version counter, the statements that were applied
  to it, and every operation issued against it, oldest first.
\<close>

record database =
  user_version :: int
  applied :: "string list"
  issued :: "op list"

definition getSchemaVersion :: "engine \<Rightarrow> database \<Rightarrow> (error + int) \<times> database" where
  "getSchemaVersion eng d =
     (case version_outcome eng of
        Some e \<Rightarrow> (Inl e, d\<lparr>issued := issued d @ [OpGetSchemaVersion]\<rparr>)
      | None \<Rightarrow> (Inr (user_version d), d\<lparr>issued := issued d @ [OpGetSchemaVersion]\<rparr>))"

definition execute :: "engine \<Rightarrow> string \<Rightarrow> database \<Rightarrow> (error + unit) \<times> database" where
  "execute eng statement d =
     (case execute_outcome eng statement of
        Some e \<Rightarrow> (Inl e, d\<lparr>issued := issued d @ [OpExecute statement]\<rparr>)
      | None \<Rightarrow> (Inr (), d\<lparr>applied := applied d @ [statement],
                             issued := issued d @ [OpExecute statement]\<rparr>))"

definition setSchemaVersion :: "engine \<Rightarrow> int \<Rightarrow> database \<Rightarrow> (error + unit) \<times> database" where
  "setSchemaVersion eng v d =
     (case stamp_outcome eng v of
        Some e \<Rightarrow> (Inl e, d\<lparr>issued := issued d @ [OpSetSchemaVersion v]\<rparr>)
      | None \<Rightarrow> (Inr (), d\<lparr>user_version := v,
                             issued := issued d @ [OpSetSchemaVersion v]\<rparr>))"

definition close_db :: "database \<Rightarrow> database" where
  "close_db d = d\<lparr>issued := issued d @ [OpClose]\<rparr>"

subsection \<open>Schema creation\<close>

fun join :: "string \<Rightarrow> string list \<Rightarrow> string" where
  "join sep [] = []"
| "join sep [x] = x"
| "join sep (x # y # ys) = x @ sep @ join sep (y # ys)"

definition index_statement :: "string \<Rightarrow> index_def \<Rightarrow> string" where
  "index_statement name index =
     ''CREATE INDEX IF NOT EXISTS '' @ name @ '' ON '' @ table index @
     ''('' @ join '', '' (columns index) @ '')''"

text \<open>
  The two loops of \<^verbatim>\<open>_dbCreate\<close>. Each call of \<^verbatim>\<open>connection.execute\<close> is made at
  once and its promise is pushed; no call waits for an earlier one to settle.
\<close>

fun push_tables ::
  "engine \<Rightarrow> (string \<times> string) list \<Rightarrow> (error + unit) list \<times> database
     \<Rightarrow> (error + unit) list \<times> database" where
  "push_tables eng [] (promises, d) = (promises, d)"
| "push_tables eng ((name, statement) # rest) (promises, d) =
     (let (p, d') = execute eng statement d
      in push_tables eng rest (promises @ [p], d'))"

fun push_indices ::
  "engine \<Rightarrow> (string \<times> index_def) list \<Rightarrow> (error + unit) list \<times> database
     \<Rightarrow> (error + unit) list \<times> database" where
  "push_indices eng [] (promises, d) = (promises, d)"
| "push_indices eng ((name, index) # rest) (promises, d) =
     (let statement = index_statement name index;
          (p, d') = execute eng statement d
      in push_indices eng rest (promises @ [p], d'))"

text \<open>
  \<^verbatim>\<open>Promise.promised(Array)(promises)\<close> waits for the promises from left to right:
  it resolves to the array of their values, or rejects with the first rejection it
  meets.
\<close>

fun promised_Array :: "(error + 'a) list \<Rightarrow> error + 'a list" where
  "promised_Array [] = Inr []"
| "promised_Array (Inl e # ps) = Inl e"
| "promised_Array (Inr v # ps) =
     (case promised_Array ps of Inl e \<Rightarrow> Inl e | Inr vs \<Rightarrow> Inr (v # vs))"

definition dbCreate :: "engine \<Rightarrow> database \<Rightarrow> (error + unit list) \<times> database" where
  "dbCreate eng d =
     (let (promises1, d1) = push_tables eng (tables SCHEMA) ([], d);
          (promises2, d2) = push_indices eng (indices SCHEMA) (promises1, d1);
          (p, d3) = setSchemaVersion eng DB_VERSION d2
      in (promised_Array (promises2 @ [p]), d3))"

subsection \<open>Migration and initialisation\<close>

text \<open>\<^verbatim>\<open>_dbMigrate\<close> resolves at once with the connection it was given.\<close>

definition dbMigrate :: "engine \<Rightarrow> database \<Rightarrow> int \<Rightarrow> (error + database) \<times> database" where
  "dbMigrate eng d version = (Inr d, d)"

definition dbInit :: "engine \<Rightarrow> database \<Rightarrow> (error + bool) \<times> database" where
  "dbInit eng d =
     (case getSchemaVersion eng d of
        (Inl e, d1) \<Rightarrow> (Inl e, d1)
      | (Inr version, d1) \<Rightarrow>
          if version = 0 then
            (case dbCreate eng d1 of
               (Inl e, d2) \<Rightarrow> (Inl e, d2)
             | (Inr _, d2) \<Rightarrow> (Inr True, d2))
          else if version \<noteq> DB_VERSION then
            (case dbMigrate eng d1 version of
               (Inl e, d2) \<Rightarrow> (Inl e, d2)
             | (Inr _, d2) \<Rightarrow> (Inr True, d2))
          else (Inr False, d1))"

subsection \<open>Promises, connections and the state of the module\<close>

text \<open>
  Promises and connections are objects with an identity: each lives in a list and is
  referred to by its position there. A promise is pending, resolved with a connection
  reference, or rejected.
\<close>

datatype promise_state = Pending | Resolved nat | Rejected error

record connection =
  conn_closed :: bool
  isMigrated :: "bool option"

text \<open>
  The fields of \<^verbatim>\<open>TabDatabase\<close> and the platform state it touches.
  \<open>dbConnectionPromise\<close> is the field \<^verbatim>\<open>_dbConnectionPromise\<close> (\<open>None\<close> is
  \<^verbatim>\<open>null\<close>). \<open>dbMigrationPromiseDeferred\<close> is the property
  \<^verbatim>\<open>_dbMigrationPromiseDeferred\<close>, which the object literal does not define
  (\<open>None\<close> is \<^verbatim>\<open>undefined\<close>). \<open>observers\<close> are the registered
  \<^verbatim>\<open>DBCloseCallback\<close> closures of topic \<^verbatim>\<open>profile-change-teardown\<close>, each
  named by the connection it closes over. \<open>opens\<close> counts the calls of
  \<^verbatim>\<open>Sqlite.openConnection\<close> and \<open>registrations\<close> the calls of
  \<^verbatim>\<open>addObserver\<close>.
\<close>

record world =
  dbConnectionPromise :: "nat option"
  dbMigrationPromiseDeferred :: "nat option"
  promises :: "promise_state list"
  connections :: "connection list"
  db :: database
  observers :: "nat list"
  opens :: nat
  registrations :: nat

definition init_world :: "database \<Rightarrow> world" where
  "init_world d =
     \<lparr>dbConnectionPromise = None, dbMigrationPromiseDeferred = None, promises = [],
      connections = [], db = d, observers = [], opens = 0, registrations = 0\<rparr>"

definition close :: "nat \<Rightarrow> world \<Rightarrow> world" where
  "close c w =
     w\<lparr>connections := (connections w)[c := (connections w ! c)\<lparr>conn_closed := True\<rparr>],
       db := close_db (db w)\<rparr>"

text \<open>
  \<^verbatim>\<open>_openDatabaseConnection\<close> up to the first \<^verbatim>\<open>yield\<close>. Its first statement
  evaluates \<^verbatim>\<open>Ci.nsIFile\<close>: where \<^verbatim>\<open>Ci\<close> is unbound this throws a
  \<^verbatim>\<open>ReferenceError\<close> out of the function, before \<^verbatim>\<open>Task.spawn\<close> is reached.
  Otherwise \<^verbatim>\<open>Task.spawn\<close> makes a new pending promise and the task calls
  \<^verbatim>\<open>Sqlite.openConnection\<close>.
\<close>

definition openDatabaseConnection :: "engine \<Rightarrow> world \<Rightarrow> (error + nat) \<times> world" where
  "openDatabaseConnection eng w =
     (if Ci_bound eng
      then (Inr (length (promises w)),
            w\<lparr>promises := promises w @ [Pending], opens := opens w + 1\<rparr>)
      else (Inl (ReferenceError ''Ci is not defined''), w))"

text \<open>
  The rest of the task, run when the engine has answered. Between its \<^verbatim>\<open>yield\<close>s
  the task touches only its own connection and the store, the getter touches only the
  cached promise, and a teardown notification only the observers registered before it;
  so the remainder of the task is one step of the model. In the \<^verbatim>\<open>catch\<close> branch
  the task waits for \<^verbatim>\<open>connection.close()\<close> and then rethrows.
\<close>

definition spawned_task :: "engine \<Rightarrow> nat \<Rightarrow> world \<Rightarrow> world" where
  "spawned_task eng p w =
     (case open_outcome eng of
        Some e \<Rightarrow> w\<lparr>promises := (promises w)[p := Rejected e]\<rparr>
      | None \<Rightarrow>
          (let c = length (connections w);
               w1 = w\<lparr>connections :=
                       connections w @ [\<lparr>conn_closed = False, isMigrated = None\<rparr>]\<rparr>
           in case dbInit eng (db w1) of
                (Inl ex, d) \<Rightarrow>
                  (let w2 = close c (w1\<lparr>db := d\<rparr>)
                   in w2\<lparr>promises := (promises w2)[p := Rejected ex]\<rparr>)
              | (Inr b, d) \<Rightarrow>
                  (let w2 = w1\<lparr>db := d,
                               connections := (connections w1)
                                 [c := (connections w1 ! c)\<lparr>isMigrated := Some b\<rparr>]\<rparr>;
                       w3 = w2\<lparr>observers := observers w2 @ [c],
                               registrations := registrations w2 + 1\<rparr>
                   in w3\<lparr>promises := (promises w3)[p := Resolved c]\<rparr>)))"

definition DBCloseCallback :: "nat \<Rightarrow> world \<Rightarrow> world" where
  "DBCloseCallback c w = close c (w\<lparr>observers := remove1 c (observers w)\<rparr>)"

text \<open>
  The getter. An exception thrown by \<^verbatim>\<open>_openDatabaseConnection\<close> leaves the getter
  before the assignment, so nothing is cached.
\<close>

definition DBConnectionPromise :: "engine \<Rightarrow> world \<Rightarrow> (error + nat) \<times> world" where
  "DBConnectionPromise eng w =
     (case dbConnectionPromise w of
        None \<Rightarrow>
          (case openDatabaseConnection eng w of
             (Inl e, w') \<Rightarrow> (Inl e, w')
           | (Inr p, w') \<Rightarrow> (Inr p, w'\<lparr>dbConnectionPromise := Some p\<rparr>))
      | Some p \<Rightarrow> (Inr p, w))"

definition getDbMigrationPromise :: "world \<Rightarrow> error + nat" where
  "getDbMigrationPromise w =
     (case dbMigrationPromiseDeferred w of
        None \<Rightarrow> Inl (TypeError ''this._dbMigrationPromiseDeferred is undefined'')
      | Some deferred \<Rightarrow> Inr deferred)"

subsection \<open>Events\<close>

text \<open>
  What can happen to the module: a caller reads \<^verbatim>\<open>DBConnectionPromise\<close>, the task
  behind a pending promise runs to its end, or the observer service notifies
  \<^verbatim>\<open>profile-change-teardown\<close>.
\<close>

datatype event = Access | Settle nat | Teardown

definition settle :: "engine \<Rightarrow> nat \<Rightarrow> world \<Rightarrow> world" where
  "settle eng p w =
     (if p < length (promises w) \<and> promises w ! p = Pending then spawned_task eng p w
      else w)"

definition notify_teardown :: "world \<Rightarrow> world" where
  "notify_teardown w = fold DBCloseCallback (observers w) w"

fun step :: "engine \<Rightarrow> event \<Rightarrow> world \<Rightarrow> (error + nat) option \<times> world" where
  "step eng Access w = (let (r, w') = DBConnectionPromise eng w in (Some r, w'))"
| "step eng (Settle p) w = (None, settle eng p w)"
| "step eng Teardown w = (None, notify_teardown w)"

text \<open>
  \<open>run\<close> returns the promises handed to the callers, in order, and the final state.
  An access that throws hands out no promise.
\<close>

fun run :: "engine \<Rightarrow> event list \<Rightarrow> world \<Rightarrow> nat list \<times> world" where
  "run eng [] w = ([], w)"
| "run eng (ev # evs) w =
     (let (r, w') = step eng ev w;
          (rs, w'') = run eng evs w'
      in ((case r of Some (Inr p) \<Rightarrow> [p] | _ \<Rightarrow> []) @ rs, w''))"

subsection \<open>Notions used in the statements\<close>

text \<open>
  The statements \<^verbatim>\<open>_dbCreate\<close> issues, in the order it issues them, and the outcome
  of one of them as the settled value of its promise.
\<close>

definition create_statements :: "string list" where
  "create_statements =
     map snd (tables SCHEMA) @ map (\<lambda>(name, index). index_statement name index) (indices SCHEMA)"

definition outcome_of :: "engine \<Rightarrow> string \<Rightarrow> error + unit" where
  "outcome_of eng statement =
     (case execute_outcome eng statement of Some e \<Rightarrow> Inl e | None \<Rightarrow> Inr ())"

text \<open>
  A table or an index of the catalog exists in a store when the catalog's statement that
  creates it has been applied there.
\<close>

definition table_exists :: "database \<Rightarrow> string \<Rightarrow> bool" where
  "table_exists d name =
     (case map_of (tables SCHEMA) name of
        None \<Rightarrow> False
      | Some statement \<Rightarrow> statement \<in> set (applied d))"

definition index_exists :: "database \<Rightarrow> string \<Rightarrow> bool" where
  "index_exists d name =
     (case map_of (indices SCHEMA) name of
        None \<Rightarrow> False
      | Some index \<Rightarrow> index_statement name index \<in> set (applied d))"

definition closes :: "database \<Rightarrow> nat" where
  "closes d = length (filter (\<lambda>x. x = OpClose) (issued d))"

definition version_reads :: "database \<Rightarrow> nat" where
  "version_reads d = length (filter (\<lambda>x. x = OpGetSchemaVersion) (issued d))"

definition after_read :: "database \<Rightarrow> database" where
  "after_read d = d\<lparr>issued := issued d @ [OpGetSchemaVersion]\<rparr>"

text \<open>
  The states the module can be in. Apart from the initial one they differ only in the
  promise, the connection, the store, the observers and the number of registrations.
  \<open>lifecycle eng d0\<close> lists them for an engine \<open>eng\<close> and an initial store \<open>d0\<close>:
  nothing accessed yet; acquisition pending; open rejected; initialisation rejected and
  the connection closed; ready; ready and closed by teardown.
\<close>

definition shape ::
  "promise_state \<Rightarrow> connection list \<Rightarrow> database \<Rightarrow> nat list \<Rightarrow> nat \<Rightarrow> world" where
  "shape ps cs d obs regs =
     \<lparr>dbConnectionPromise = Some 0, dbMigrationPromiseDeferred = None, promises = [ps],
      connections = cs, db = d, observers = obs, opens = 1, registrations = regs\<rparr>"

definition lifecycle :: "engine \<Rightarrow> database \<Rightarrow> world \<Rightarrow> bool" where
  "lifecycle eng d0 w \<longleftrightarrow>
     w = init_world d0 \<or> w = shape Pending [] d0 [] 0 \<or>
     (case open_outcome eng of
        Some e \<Rightarrow> w = shape (Rejected e) [] d0 [] 0
      | None \<Rightarrow>
          (case dbInit eng d0 of
             (Inl ex, d1) \<Rightarrow>
               w = shape (Rejected ex) [\<lparr>conn_closed = True, isMigrated = None\<rparr>]
                     (close_db d1) [] 0
           | (Inr b, d1) \<Rightarrow>
               w = shape (Resolved 0) [\<lparr>conn_closed = False, isMigrated = Some b\<rparr>] d1 [0] 1 \<or>
               w = shape (Resolved 0) [\<lparr>conn_closed = True, isMigrated = Some b\<rparr>]
                     (close_db d1) [] 1))"

text \<open>
  Concrete engines and stores for the examples. \<open>ok_engine\<close> rejects nothing and runs
  the module where \<^verbatim>\<open>Ci\<close> is supplied; \<open>as_written\<close> rejects nothing and runs the
  module with the bindings of the file alone.
\<close>

definition ok_engine :: engine where
  "ok_engine = \<lparr>open_outcome = None, version_outcome = None,
     execute_outcome = (\<lambda>statement. None), stamp_outcome = (\<lambda>v. None), Ci_bound = True\<rparr>"

definition as_written :: engine where
  "as_written = ok_engine\<lparr>Ci_bound := False\<rparr>"

definition reject_version_read :: engine where
  "reject_version_read = ok_engine\<lparr>version_outcome := Some (EngineError ''disk I/O error'')\<rparr>"

definition reject_sessions :: engine where
  "reject_sessions = ok_engine\<lparr>execute_outcome := (\<lambda>statement.
     if statement = ''CREATE TABLE squirrel_sessions (  id INTEGER PRIMARY KEY, timestamp INTEGER NOT NULL)''
     then Some (EngineError ''table squirrel_sessions already exists'') else None)\<rparr>"

definition db_at :: "int \<Rightarrow> database" where
  "db_at v = \<lparr>user_version = v, applied = [], issued = []\<rparr>"

section \<open>Properties\<close>

subsection \<open>Auxiliary lemmas\<close>

lemma push_tables_eq:
  "push_tables eng ts (ps, d) =
     (ps @ map (outcome_of eng \<circ> snd) ts,
      d\<lparr>applied := applied d @ filter (\<lambda>s. execute_outcome eng s = None) (map snd ts),
        issued := issued d @ map (OpExecute \<circ> snd) ts\<rparr>)"
  by (induction ts arbitrary: ps d) (auto simp: execute_def outcome_of_def split: option.splits)

lemma push_indices_eq:
  "push_indices eng ixs (ps, d) =
     (ps @ map (outcome_of eng \<circ> (\<lambda>(name, index). index_statement name index)) ixs,
      d\<lparr>applied := applied d @ filter (\<lambda>s. execute_outcome eng s = None)
                                 (map (\<lambda>(name, index). index_statement name index) ixs),
        issued := issued d @ map (OpExecute \<circ> (\<lambda>(name, index). index_statement name index)) ixs\<rparr>)"
  by (induction ixs arbitrary: ps d) (auto simp: execute_def outcome_of_def Let_def split: option.splits)

lemma dbCreate_eq:
  "dbCreate eng d =
     (promised_Array (map (outcome_of eng) create_statements @
        [case stamp_outcome eng DB_VERSION of Some e \<Rightarrow> Inl e | None \<Rightarrow> Inr ()]),
      d\<lparr>user_version := (if stamp_outcome eng DB_VERSION = None then DB_VERSION else user_version d),
        applied := applied d @ filter (\<lambda>s. execute_outcome eng s = None) create_statements,
        issued := issued d @ map OpExecute create_statements @ [OpSetSchemaVersion DB_VERSION]\<rparr>)"
  by (simp add: dbCreate_def push_tables_eq push_indices_eq setSchemaVersion_def create_statements_def
      split: option.splits)

lemma promised_Array_Inr:
  "(\<exists>vs. promised_Array ps = Inr vs) \<longleftrightarrow> (\<forall>p \<in> set ps. \<not> isl p)"
  by (induction ps rule: promised_Array.induct) (auto split: sum.splits)

lemma create_statements_value:
  "create_statements =
    [''CREATE TABLE squirrel_tabs (  id INTEGER PRIMARY KEY, session_id INTEGER NOT NULL, url TEXT NOT NULL, title TEXT NOT NULL, timestamp INTEGER NOT NULL)'',
     ''CREATE TABLE squirrel_sessions (  id INTEGER PRIMARY KEY, timestamp INTEGER NOT NULL)'',
     ''CREATE TABLE squirrel_sessions_tabs (  tab_id INTEGER NOT NULL, session_id INTEGER NOT NULL)'',
     ''CREATE INDEX IF NOT EXISTS squirrel_tabs_timestamp_index ON squirrel_tabs(timestamp)'',
     ''CREATE INDEX IF NOT EXISTS squirrel_sessions_timestamp_index ON squirrel_sessions(timestamp)'',
     ''CREATE INDEX IF NOT EXISTS squirrel_sessions_tabs_tab_index ON squirrel_sessions_tabs(tab_id)'',
     ''CREATE INDEX IF NOT EXISTS squirrel_sessions_tabs_session_index ON squirrel_sessions_tabs(session_id)'']"
  by (simp add: create_statements_def SCHEMA_def index_statement_def)

lemma lifecycle_init: "lifecycle eng d0 (init_world d0)"
  by (simp add: lifecycle_def)

lemma access_init:
  "Ci_bound eng \<Longrightarrow> DBConnectionPromise eng (init_world d0) = (Inr 0, shape Pending [] d0 [] 0)"
  by (simp add: DBConnectionPromise_def openDatabaseConnection_def init_world_def shape_def)

lemma access_unbound:
  "\<not> Ci_bound eng \<Longrightarrow>
     DBConnectionPromise eng (init_world d0) =
       (Inl (ReferenceError ''Ci is not defined''), init_world d0)"
  by (simp add: DBConnectionPromise_def openDatabaseConnection_def init_world_def)

lemma access_shape:
  "DBConnectionPromise eng (shape ps cs d obs regs) = (Inr 0, shape ps cs d obs regs)"
  by (simp add: DBConnectionPromise_def shape_def)

lemma settle_init: "settle eng p (init_world d0) = init_world d0"
  by (simp add: settle_def init_world_def)

lemma settle_done:
  "ps \<noteq> Pending \<Longrightarrow> settle eng p (shape ps cs d obs regs) = shape ps cs d obs regs"
  by (cases p) (simp_all add: settle_def shape_def)

lemma settle_pending_other:
  "p \<noteq> 0 \<Longrightarrow> settle eng p (shape Pending cs d obs regs) = shape Pending cs d obs regs"
  by (simp add: settle_def shape_def)

lemma settle_pending:
  "settle eng 0 (shape Pending [] d0 [] 0) =
     (case open_outcome eng of
        Some e \<Rightarrow> shape (Rejected e) [] d0 [] 0
      | None \<Rightarrow>
          (case dbInit eng d0 of
             (Inl ex, d1) \<Rightarrow>
               shape (Rejected ex) [\<lparr>conn_closed = True, isMigrated = None\<rparr>] (close_db d1) [] 0
           | (Inr b, d1) \<Rightarrow>
               shape (Resolved 0) [\<lparr>conn_closed = False, isMigrated = Some b\<rparr>] d1 [0] 1))"
  by (simp add: settle_def shape_def spawned_task_def close_def Let_def
      split: option.splits prod.splits sum.splits)

lemma teardown_init: "notify_teardown (init_world d0) = init_world d0"
  by (simp add: notify_teardown_def init_world_def)

lemma teardown_idle: "notify_teardown (shape ps cs d [] regs) = shape ps cs d [] regs"
  by (simp add: notify_teardown_def shape_def)

lemma teardown_ready:
  "notify_teardown (shape ps [\<lparr>conn_closed = False, isMigrated = m\<rparr>] d [0] regs) =
     shape ps [\<lparr>conn_closed = True, isMigrated = m\<rparr>] (close_db d) [] regs"
  by (simp add: notify_teardown_def shape_def DBCloseCallback_def close_def)

lemma lifecycle_step:
  assumes "lifecycle eng d0 w"
  shows "lifecycle eng d0 (snd (step eng ev w))"
proof (cases ev)
  case Access
  show ?thesis
  proof (cases "Ci_bound eng")
    case True
    with assms Access show ?thesis
      by (auto simp: lifecycle_def access_init access_shape
          split: option.splits prod.splits sum.splits)
  next
    case False
    with assms Access show ?thesis
      by (auto simp: lifecycle_def access_unbound access_shape
          split: option.splits prod.splits sum.splits)
  qed
next
  case (Settle p)
  show ?thesis
  proof (cases "w = shape Pending [] d0 [] 0")
    case True
    show ?thesis
    proof (cases "p = 0")
      case True
      with \<open>w = shape Pending [] d0 [] 0\<close> Settle show ?thesis
        by (simp add: settle_pending lifecycle_def split: option.splits prod.splits sum.splits)
    next
      case False
      with \<open>w = shape Pending [] d0 [] 0\<close> Settle show ?thesis
        by (simp add: settle_pending_other lifecycle_def)
    qed
  next
    case False
    with assms Settle show ?thesis
      by (auto simp: lifecycle_def settle_init settle_done split: option.splits prod.splits sum.splits)
  qed
next
  case Teardown
  with assms show ?thesis
    by (auto simp: lifecycle_def teardown_ready teardown_init teardown_idle
        split: option.splits prod.splits sum.splits)
qed

lemma run_snd: "snd (run eng (ev # evs) w) = snd (run eng evs (snd (step eng ev w)))"
  by (simp split: prod.splits)

lemma run_fst:
  "fst (run eng (ev # evs) w) =
     (case fst (step eng ev w) of Some (Inr p) \<Rightarrow> [p] | _ \<Rightarrow> []) @
     fst (run eng evs (snd (step eng ev w)))"
  by (simp split: prod.splits)

lemma lifecycle_run: "lifecycle eng d0 w \<Longrightarrow> lifecycle eng d0 (snd (run eng es w))"
proof (induction es arbitrary: w)
  case Nil
  then show ?case by simp
next
  case (Cons ev es)
  from Cons.prems have "lifecycle eng d0 (snd (step eng ev w))"
    by (rule lifecycle_step)
  then show ?case
    unfolding run_snd by (rule Cons.IH)
qed

lemma lifecycle_reach:
  "run eng es (init_world d0) = (rs, w) \<Longrightarrow> lifecycle eng d0 w"
  using lifecycle_run [OF lifecycle_init, of eng d0 es] by simp

lemma access_result:
  assumes "lifecycle eng d0 w" and "fst (step eng ev w) = Some (Inr p)"
  shows "p = 0"
proof (cases "Ci_bound eng")
  case True
  with assms show ?thesis
    by (cases ev)
      (auto simp: lifecycle_def access_init access_shape
        split: option.splits prod.splits sum.splits)
next
  case False
  with assms show ?thesis
    by (cases ev)
      (auto simp: lifecycle_def access_unbound access_shape
        split: option.splits prod.splits sum.splits)
qed

lemma run_results: "lifecycle eng d0 w \<Longrightarrow> set (fst (run eng es w)) \<subseteq> {0}"
proof (induction es arbitrary: w)
  case Nil
  then show ?case by simp
next
  case (Cons ev es)
  have "set (fst (run eng es (snd (step eng ev w)))) \<subseteq> {0}"
    by (rule Cons.IH) (rule lifecycle_step [OF Cons.prems])
  moreover have "p = 0" if "fst (step eng ev w) = Some (Inr p)" for p
    by (rule access_result [OF Cons.prems that])
  ultimately show ?case
    unfolding run_fst by (auto split: option.splits sum.splits)
qed

lemma settled_step:
  assumes "lifecycle eng d0 w" and "promises w = [s]" and "s \<noteq> Pending"
  shows "promises (snd (step eng ev w)) = [s] \<and> opens (snd (step eng ev w)) = opens w \<and>
         dbConnectionPromise (snd (step eng ev w)) = Some 0 \<and> dbConnectionPromise w = Some 0"
proof -
  from assms obtain cs d obs regs where w: "w = shape s cs d obs regs" and
      obs: "obs = [] \<or> (obs = [0] \<and> (\<exists>m. cs = [\<lparr>conn_closed = False, isMigrated = m\<rparr>]))"
    by (auto simp: lifecycle_def init_world_def shape_def split: option.splits prod.splits sum.splits)
  show ?thesis
  proof (cases ev)
    case Access
    then show ?thesis by (simp add: w access_shape) (simp add: shape_def)
  next
    case (Settle p)
    then show ?thesis using assms(3) by (simp add: w settle_done) (simp add: shape_def)
  next
    case Teardown
    then show ?thesis using obs
      by (auto simp: w teardown_idle teardown_ready) (simp_all add: shape_def)
  qed
qed

lemma settled_run:
  assumes "lifecycle eng d0 w" and "promises w = [s]" and "s \<noteq> Pending"
  shows "promises (snd (run eng es w)) = [s] \<and> opens (snd (run eng es w)) = opens w \<and>
         dbConnectionPromise (snd (run eng es w)) = dbConnectionPromise w"
  using assms
proof (induction es arbitrary: w)
  case Nil
  then show ?case by simp
next
  case (Cons ev es)
  note st = settled_step [OF Cons.prems, of ev]
  have "lifecycle eng d0 (snd (step eng ev w))"
    by (rule lifecycle_step [OF Cons.prems(1)])
  from Cons.IH [OF this _ Cons.prems(3)] st show ?case
    unfolding run_snd by simp
qed

lemma dbCreate_resolves:
  "(\<exists>vs. fst (dbCreate eng d) = Inr vs) \<longleftrightarrow>
     (\<forall>s \<in> set create_statements. execute_outcome eng s = None) \<and> stamp_outcome eng DB_VERSION = None"
  by (auto simp: dbCreate_eq promised_Array_Inr outcome_of_def split: option.splits)

lemma dbCreate_issued:
  "issued (snd (dbCreate eng d)) =
     issued d @ map OpExecute create_statements @ [OpSetSchemaVersion DB_VERSION]"
  by (simp add: dbCreate_eq)

lemma dbCreate_version:
  "user_version (snd (dbCreate eng d)) =
     (if stamp_outcome eng DB_VERSION = None then DB_VERSION else user_version d)"
  by (simp add: dbCreate_eq)

lemma dbCreate_applied:
  "applied (snd (dbCreate eng d)) =
     applied d @ filter (\<lambda>s. execute_outcome eng s = None) create_statements"
  by (simp add: dbCreate_eq)

lemma dbInit_version:
  assumes "dbInit eng d = (Inr b, d1)"
  shows "user_version d1 = (if user_version d = 0 then DB_VERSION else user_version d)"
proof (cases "user_version d = 0")
  case True
  let ?d = "d\<lparr>issued := issued d @ [OpGetSchemaVersion]\<rparr>"
  from assms True have "\<exists>vs. fst (dbCreate eng ?d) = Inr vs" and "d1 = snd (dbCreate eng ?d)"
    by (auto simp: dbInit_def getSchemaVersion_def split: option.splits prod.splits sum.splits)
  then show ?thesis
    using True by (simp add: dbCreate_resolves dbCreate_version)
next
  case False
  with assms show ?thesis
    by (auto simp: dbInit_def getSchemaVersion_def dbMigrate_def
        split: option.splits prod.splits sum.splits if_splits)
qed

lemma dbInit_issued:
  "issued (snd (dbInit eng d)) =
     issued d @ OpGetSchemaVersion #
       (if version_outcome eng = None \<and> user_version d = 0
        then map OpExecute create_statements @ [OpSetSchemaVersion DB_VERSION] else [])"
proof -
  have "snd (case dbCreate eng d' of (Inl e, d2) \<Rightarrow> (Inl e, d2) | (Inr x, d2) \<Rightarrow> (Inr True, d2))
        = snd (dbCreate eng d')" for d'
    by (simp split: prod.splits sum.splits)
  then show ?thesis
    by (simp add: dbInit_def getSchemaVersion_def dbMigrate_def dbCreate_issued
        split: option.splits)
qed

lemma dbInit_closes: "closes (snd (dbInit eng d)) = closes d"
  by (simp add: closes_def dbInit_issued)

lemma dbInit_reads: "version_reads (snd (dbInit eng d)) = Suc (version_reads d)"
  by (simp add: version_reads_def dbInit_issued)

lemma teardown_keeps_cache:
  "dbConnectionPromise (fold DBCloseCallback cs w) = dbConnectionPromise w"
  by (induction cs arbitrary: w) (simp_all add: DBCloseCallback_def close_def)

lemma step_keeps_cache:
  assumes "dbConnectionPromise w = Some p"
  shows "dbConnectionPromise (snd (step eng ev w)) = Some p"
proof (cases ev)
  case Access
  with assms show ?thesis by (simp add: DBConnectionPromise_def)
next
  case (Settle q)
  with assms show ?thesis
    by (simp add: settle_def spawned_task_def close_def Let_def
        split: option.splits prod.splits sum.splits)
next
  case Teardown
  with assms show ?thesis by (simp add: notify_teardown_def teardown_keeps_cache)
qed

lemma run_keeps_cache:
  "dbConnectionPromise w = Some p \<Longrightarrow> dbConnectionPromise (snd (run eng es w)) = Some p"
proof (induction es arbitrary: w)
  case Nil
  then show ?case by simp
next
  case (Cons ev es)
  show ?case unfolding run_snd
    by (rule Cons.IH) (rule step_keeps_cache [OF Cons.prems])
qed

lemma run_answers:
  "dbConnectionPromise w = Some p \<Longrightarrow>
     length (fst (run eng es w)) = length (filter (\<lambda>ev. ev = Access) es)"
proof (induction es arbitrary: w)
  case Nil
  then show ?case by simp
next
  case (Cons ev es)
  have "dbConnectionPromise (snd (step eng ev w)) = Some p"
    by (rule step_keeps_cache [OF Cons.prems])
  from Cons.IH [OF this] Cons.prems show ?case
    unfolding run_fst by (cases ev) (simp_all add: DBConnectionPromise_def split: prod.splits)
qed

lemma access_caches:
  "fst (step eng Access w) = Some (Inr p) \<Longrightarrow>
     dbConnectionPromise (snd (step eng Access w)) = Some p"
  by (auto simp: DBConnectionPromise_def openDatabaseConnection_def
      split: option.splits if_splits)

lemma run_cached:
  "r \<in> set (fst (run eng es w)) \<Longrightarrow> dbConnectionPromise (snd (run eng es w)) = Some r"
proof (induction es arbitrary: w)
  case Nil
  then show ?case by simp
next
  case (Cons ev es)
  show ?case
  proof (cases "r \<in> set (fst (run eng es (snd (step eng ev w))))")
    case True
    then show ?thesis unfolding run_snd by (rule Cons.IH)
  next
    case False
    with Cons.prems have r: "fst (step eng ev w) = Some (Inr r)"
      unfolding run_fst by (auto split: option.splits sum.splits)
    then have "ev = Access" by (cases ev) simp_all
    with r have "dbConnectionPromise (snd (step eng ev w)) = Some r"
      by (simp only: access_caches)
    then show ?thesis unfolding run_snd by (rule run_keeps_cache)
  qed
qed

lemma lifecycle_started:
  assumes "lifecycle eng d0 w" and "dbConnectionPromise w = Some p"
  shows "p = 0 \<and> (\<exists>s. promises w = [s]) \<and> opens w = 1"
  using assms
  by (auto simp: lifecycle_def init_world_def shape_def split: option.splits prod.splits sum.splits)

lemma close_db_reads: "version_reads (close_db d) = version_reads d"
  by (simp add: version_reads_def close_db_def)

lemma close_db_closes: "closes (close_db d) = Suc (closes d)"
  by (simp add: closes_def close_db_def)

lemma dbCreate_ok: "\<exists>vs. fst (dbCreate ok_engine d) = Inr vs"
  by (simp add: dbCreate_resolves ok_engine_def)

lemma run_acquire:
  "Ci_bound eng \<Longrightarrow>
     run eng [Access, Settle 0] (init_world d0) = ([0], settle eng 0 (shape Pending [] d0 [] 0))"
  by (simp add: access_init)

lemma run_unbound:
  "\<not> Ci_bound eng \<Longrightarrow> run eng [Access, Settle p] (init_world d0) = ([], init_world d0)"
  by (simp add: access_unbound settle_init)

lemma acquire_ok:
  assumes "open_outcome eng = None" and "dbInit eng d0 = (Inr b, d1)" and "Ci_bound eng"
  shows "run eng [Access, Settle 0] (init_world d0) =
           ([0], shape (Resolved 0) [\<lparr>conn_closed = False, isMigrated = Some b\<rparr>] d1 [0] 1)"
  unfolding run_acquire [OF assms(3)] using assms(1,2) by (simp add: settle_pending)

lemma acquire_fail:
  assumes "open_outcome eng = None" and "dbInit eng d0 = (Inl ex, d1)" and "Ci_bound eng"
  shows "run eng [Access, Settle 0] (init_world d0) =
           ([0], shape (Rejected ex) [\<lparr>conn_closed = True, isMigrated = None\<rparr>] (close_db d1) [] 0)"
  unfolding run_acquire [OF assms(3)] using assms(1,2) by (simp add: settle_pending)

lemma dbInit_at:
  assumes "version_outcome eng = None" and "v \<noteq> 0"
  shows "dbInit eng (db_at v) = (Inr (v \<noteq> DB_VERSION), after_read (db_at v))"
  using assms by (simp add: dbInit_def getSchemaVersion_def dbMigrate_def db_at_def after_read_def)

lemma dbInit_creates:
  assumes "version_outcome eng = None" and "user_version d = 0"
      and "\<exists>vs. fst (dbCreate eng (after_read d)) = Inr vs"
  shows "dbInit eng d = (Inr True, snd (dbCreate eng (after_read d)))"
  using assms
  by (auto simp: dbInit_def getSchemaVersion_def after_read_def split: prod.splits sum.splits)

lemma dbInit_read_rejected:
  assumes "version_outcome eng = Some e"
  shows "dbInit eng d = (Inl e, after_read d)"
  using assms by (simp add: dbInit_def getSchemaVersion_def after_read_def)

lemma lifecycle_resolved:
  assumes "lifecycle eng d0 w" and "dbConnectionPromise w = Some p" and "promises w ! p = Resolved c"
  shows "\<exists>b d1. open_outcome eng = None \<and> dbInit eng d0 = (Inr b, d1) \<and> p = 0 \<and> c = 0 \<and>
           (w = shape (Resolved 0) [\<lparr>conn_closed = False, isMigrated = Some b\<rparr>] d1 [0] 1 \<or>
            w = shape (Resolved 0) [\<lparr>conn_closed = True, isMigrated = Some b\<rparr>] (close_db d1) [] 1)"
  using assms
  by (auto simp: lifecycle_def init_world_def shape_def split: option.splits prod.splits sum.splits)

lemma shape_fields:
  "dbConnectionPromise (shape ps cs d obs regs) = Some 0"
  "dbMigrationPromiseDeferred (shape ps cs d obs regs) = None"
  "promises (shape ps cs d obs regs) = [ps]"
  "connections (shape ps cs d obs regs) = cs"
  "db (shape ps cs d obs regs) = d"
  "observers (shape ps cs d obs regs) = obs"
  "opens (shape ps cs d obs regs) = 1"
  "registrations (shape ps cs d obs regs) = regs"
  by (simp_all add: shape_def)

lemma close_db_version: "user_version (close_db d) = user_version d"
  by (simp add: close_db_def)

lemma run_pair: "run eng es w = (fst (run eng es w), snd (run eng es w))"
  by (rule prod.collapse [symmetric])

lemma lifecycle_rejecting:
  assumes "lifecycle eng d0 w" and "open_outcome eng = None" and "dbInit eng d0 = (Inl ex, d1)"
  shows "w = init_world d0 \<or> w = shape Pending [] d0 [] 0 \<or>
         w = shape (Rejected ex) [\<lparr>conn_closed = True, isMigrated = None\<rparr>] (close_db d1) [] 0"
  using assms by (auto simp: lifecycle_def)

lemma init_fields:
  "dbConnectionPromise (init_world d) = None"
  "dbMigrationPromiseDeferred (init_world d) = None"
  "promises (init_world d) = []"
  "connections (init_world d) = []"
  "db (init_world d) = d"
  "observers (init_world d) = []"
  "opens (init_world d) = 0"
  "registrations (init_world d) = 0"
  by (simp_all add: init_world_def)

lemma lifecycle_shapes:
  assumes "lifecycle eng d0 w"
  shows "w = init_world d0 \<or> w = shape Pending [] d0 [] 0 \<or>
         (\<exists>e. w = shape (Rejected e) [] d0 [] 0) \<or>
         (\<exists>e. w = shape (Rejected e) [\<lparr>conn_closed = True, isMigrated = None\<rparr>]
                  (close_db (snd (dbInit eng d0))) [] 0) \<or>
         (\<exists>b. w = shape (Resolved 0) [\<lparr>conn_closed = False, isMigrated = Some b\<rparr>]
                  (snd (dbInit eng d0)) [0] 1) \<or>
         (\<exists>b. w = shape (Resolved 0) [\<lparr>conn_closed = True, isMigrated = Some b\<rparr>]
                  (close_db (snd (dbInit eng d0))) [] 1)"
  using assms
  by (auto simp: lifecycle_def split: option.splits prod.splits sum.splits)

lemma lifecycle_settled_obs:
  assumes "lifecycle eng d0 w" and "promises w = [s]" and "s \<noteq> Pending"
  shows "length (connections w) = (if open_outcome eng = None then 1 else 0) \<and>
         version_reads (db w) =
           (if open_outcome eng = None then Suc (version_reads d0) else version_reads d0)"
proof (cases "open_outcome eng")
  case None
  with assms have "length (connections w) = 1 \<and>
      (db w = snd (dbInit eng d0) \<or> db w = close_db (snd (dbInit eng d0)))"
    by (auto simp: lifecycle_def init_fields shape_fields split: prod.splits sum.splits)
  with None show ?thesis
    by (auto simp: dbInit_reads close_db_reads)
next
  case (Some e)
  with assms show ?thesis
    by (auto simp: lifecycle_def init_fields shape_fields)
qed

subsection \<open>Claims\<close>

text \<open>
  C1 fails on the code. The first statement of \<^verbatim>\<open>_openDatabaseConnection\<close> reads
  \<^verbatim>\<open>Ci\<close>, which the file does not bind. With the bindings of the file alone every
  read of \<^verbatim>\<open>DBConnectionPromise\<close> throws a \<^verbatim>\<open>ReferenceError\<close> before
  \<^verbatim>\<open>Task.spawn\<close> and before the getter assigns its cache: no caller receives a
  promise, nothing is cached and each later read tries again.
\<close>

theorem getter_throws_uncached:
  "\<not> Ci_bound as_written \<and>
   DBConnectionPromise as_written (init_world (db_at 0)) =
     (Inl (ReferenceError ''Ci is not defined''), init_world (db_at 0)) \<and>
   run as_written [Access, Access, Settle 0, Access] (init_world (db_at 0)) =
     ([], init_world (db_at 0)) \<and>
   dbConnectionPromise (init_world (db_at 0)) = None \<and>
   promises (init_world (db_at 0)) = [] \<and>
   opens (init_world (db_at 0)) = 0"
proof -
  have u: "\<not> Ci_bound as_written"
    by (simp add: as_written_def)
  have "run as_written [Access, Access, Settle 0, Access] (init_world (db_at 0)) =
      ([], init_world (db_at 0))"
    by (simp add: access_unbound [OF u] settle_init)
  with u access_unbound [OF u, of "db_at 0"] show ?thesis
    by (simp add: init_fields)
qed

text \<open>
  C2, as the claim states it, fails: when the engine rejects the statement that creates
  \<^verbatim>\<open>squirrel_sessions\<close>, \<^verbatim>\<open>_dbCreate\<close> rejects, yet the store that was at
  version 0 is stamped with version 1.
\<close>

theorem dbCreate_unstamped_counterexample:
  "execute_outcome reject_sessions
     ''CREATE TABLE squirrel_sessions (  id INTEGER PRIMARY KEY, timestamp INTEGER NOT NULL)'' =
     Some (EngineError ''table squirrel_sessions already exists'') \<and>
   fst (dbCreate reject_sessions (db_at 0)) =
     Inl (EngineError ''table squirrel_sessions already exists'') \<and>
   user_version (db_at 0) = 0 \<and>
   user_version (snd (dbCreate reject_sessions (db_at 0))) = 1"
  by (simp add: dbCreate_eq create_statements_value outcome_of_def reject_sessions_def ok_engine_def
      db_at_def DB_VERSION_def)

text \<open>
  C2, amended. \<^verbatim>\<open>_dbCreate\<close> issues the version stamp last, after every creation
  statement has been issued, and whatever their outcomes. It resolves exactly when every
  creation statement and the stamp succeed, and then the stored version is
  \<open>DB_VERSION\<close> and every creation statement has been applied. Whether it resolves or
  rejects, the stored version is \<open>DB_VERSION\<close> when the stamp itself succeeded and
  unchanged otherwise.
\<close>

theorem dbCreate_stamp_issued_last:
  "issued (snd (dbCreate eng d)) =
     issued d @ map OpExecute create_statements @ [OpSetSchemaVersion DB_VERSION] \<and>
   ((\<exists>vs. fst (dbCreate eng d) = Inr vs) \<longleftrightarrow>
      (\<forall>s \<in> set create_statements. execute_outcome eng s = None) \<and>
      stamp_outcome eng DB_VERSION = None) \<and>
   ((\<exists>vs. fst (dbCreate eng d) = Inr vs) \<longrightarrow>
      user_version (snd (dbCreate eng d)) = DB_VERSION \<and>
      applied (snd (dbCreate eng d)) = applied d @ create_statements) \<and>
   user_version (snd (dbCreate eng d)) =
     (if stamp_outcome eng DB_VERSION = None then DB_VERSION else user_version d)"
proof -
  have "applied (snd (dbCreate eng d)) = applied d @ create_statements"
    if "\<exists>vs. fst (dbCreate eng d) = Inr vs"
    using that by (simp add: dbCreate_resolves dbCreate_applied)
  moreover have "user_version (snd (dbCreate eng d)) = DB_VERSION"
    if "\<exists>vs. fst (dbCreate eng d) = Inr vs"
    using that by (simp add: dbCreate_resolves dbCreate_version)
  ultimately show ?thesis
    using dbCreate_resolves [of eng d] dbCreate_issued [of eng d] dbCreate_version [of eng d]
    by blast
qed

theorem dbCreate_stamp_issued_last_witness:
  "list_all (\<lambda>s. execute_outcome ok_engine s = None) create_statements \<and>
   stamp_outcome ok_engine DB_VERSION = None \<and>
   (\<exists>vs. fst (dbCreate ok_engine (db_at 0)) = Inr vs) \<and>
   user_version (snd (dbCreate ok_engine (db_at 0))) = DB_VERSION \<and>
   applied (snd (dbCreate ok_engine (db_at 0))) = create_statements"
  using dbCreate_stamp_issued_last [of ok_engine "db_at 0"]
  by (simp add: ok_engine_def db_at_def list_all_iff)

text \<open>
  C3, as the claim states it, fails: on a store at version 2, with an engine that rejects
  nothing, the acquisition resolves with a connection and the stored version is still 2,
  not \<open>DB_VERSION\<close>.
\<close>

theorem ready_version_counterexample:
  "promises (snd (run ok_engine [Access, Settle 0] (init_world (db_at 2)))) = [Resolved 0] \<and>
   user_version (db (snd (run ok_engine [Access, Settle 0] (init_world (db_at 2))))) = 2 \<and>
   DB_VERSION = 1"
proof -
  have "dbInit ok_engine (db_at 2) = (Inr True, after_read (db_at 2))"
    by (simp add: dbInit_at ok_engine_def DB_VERSION_def)
  then have "run ok_engine [Access, Settle 0] (init_world (db_at 2)) =
      ([0], shape (Resolved 0) [\<lparr>conn_closed = False, isMigrated = Some True\<rparr>]
              (after_read (db_at 2)) [0] 1)"
    by (intro acquire_ok) (simp_all add: ok_engine_def)
  then show ?thesis
    by (simp add: shape_fields after_read_def db_at_def DB_VERSION_def)
qed

text \<open>
  C3, amended. Whenever the cached promise is resolved, the stored version is
  \<open>DB_VERSION\<close> if the store was at version 0 and the version the store was at
  otherwise; so it equals \<open>DB_VERSION\<close> exactly when the store was at version 0 or
  at \<open>DB_VERSION\<close>. \<^verbatim>\<open>_dbMigrate\<close> stamps nothing.
\<close>

theorem ready_version:
  assumes "run eng es (init_world d0) = (rs, w)"
      and "dbConnectionPromise w = Some p" and "promises w ! p = Resolved c"
  shows "user_version (db w) = (if user_version d0 = 0 then DB_VERSION else user_version d0) \<and>
         (user_version (db w) = DB_VERSION \<longleftrightarrow> user_version d0 = 0 \<or> user_version d0 = DB_VERSION)"
proof -
  have "lifecycle eng d0 w"
    by (rule lifecycle_reach [OF assms(1)])
  from lifecycle_resolved [OF this assms(2,3)] obtain b d1 where
    init: "dbInit eng d0 = (Inr b, d1)" and "db w = d1 \<or> db w = close_db d1"
    by (auto simp: shape_fields)
  then have "user_version (db w) = user_version d1"
    by (auto simp: close_db_version)
  with dbInit_version [OF init] show ?thesis
    by (simp add: DB_VERSION_def)
qed

theorem ready_version_witness:
  "dbConnectionPromise (snd (run ok_engine [Access, Settle 0] (init_world (db_at 0)))) = Some 0 \<and>
   promises (snd (run ok_engine [Access, Settle 0] (init_world (db_at 0)))) ! 0 = Resolved 0 \<and>
   user_version (db (snd (run ok_engine [Access, Settle 0] (init_world (db_at 0))))) = DB_VERSION"
proof -
  let ?d1 = "snd (dbCreate ok_engine (after_read (db_at 0)))"
  have "dbInit ok_engine (db_at 0) = (Inr True, ?d1)"
    by (rule dbInit_creates) (simp_all add: ok_engine_def db_at_def dbCreate_resolves)
  then have run: "run ok_engine [Access, Settle 0] (init_world (db_at 0)) =
      ([0], shape (Resolved 0) [\<lparr>conn_closed = False, isMigrated = Some True\<rparr>] ?d1 [0] 1)"
    by (intro acquire_ok) (simp_all add: ok_engine_def)
  have c: "dbConnectionPromise (snd (run ok_engine [Access, Settle 0] (init_world (db_at 0)))) = Some 0"
    and p: "promises (snd (run ok_engine [Access, Settle 0] (init_world (db_at 0)))) ! 0 = Resolved 0"
    unfolding run by (simp_all add: shape_fields)
  have r: "run ok_engine [Access, Settle 0] (init_world (db_at 0)) =
      (fst (run ok_engine [Access, Settle 0] (init_world (db_at 0))),
       snd (run ok_engine [Access, Settle 0] (init_world (db_at 0))))"
    by (rule prod.collapse [symmetric])
  from ready_version [OF r c p] c p show ?thesis
    by (simp add: db_at_def)
qed

text \<open>
  C4. \<^verbatim>\<open>_dbInit\<close> reads the stored version first. A rejected read is the result, and
  nothing else is issued. At version 0 it runs \<^verbatim>\<open>_dbCreate\<close>, fails with its error
  and resolves to true when it resolves. At \<open>DB_VERSION\<close> it issues nothing more and
  resolves to false. At any other version it runs \<^verbatim>\<open>_dbMigrate\<close> with that version
  and resolves to true.
\<close>

theorem dbInit_dispatch:
  "(\<forall>e. version_outcome eng = Some e \<longrightarrow> dbInit eng d = (Inl e, after_read d)) \<and>
   (version_outcome eng = None \<and> user_version d = 0 \<longrightarrow>
      snd (dbInit eng d) = snd (dbCreate eng (after_read d)) \<and>
      (\<forall>e. fst (dbInit eng d) = Inl e \<longleftrightarrow> fst (dbCreate eng (after_read d)) = Inl e) \<and>
      (fst (dbInit eng d) = Inr True \<longleftrightarrow> (\<exists>vs. fst (dbCreate eng (after_read d)) = Inr vs)) \<and>
      fst (dbInit eng d) \<noteq> Inr False) \<and>
   (version_outcome eng = None \<and> user_version d = DB_VERSION \<longrightarrow>
      dbInit eng d = (Inr False, after_read d)) \<and>
   (version_outcome eng = None \<and> user_version d \<noteq> 0 \<and> user_version d \<noteq> DB_VERSION \<longrightarrow>
      dbInit eng d = (Inr True, snd (dbMigrate eng (after_read d) (user_version d))))"
  by (auto simp: after_read_def dbInit_def getSchemaVersion_def dbMigrate_def DB_VERSION_def
      split: option.splits prod.splits sum.splits)

theorem dbInit_dispatch_witness:
  "dbInit reject_version_read (db_at 0) =
     (Inl (EngineError ''disk I/O error''), after_read (db_at 0)) \<and>
   fst (dbInit ok_engine (db_at 0)) = Inr True \<and>
   dbInit ok_engine (db_at 1) = (Inr False, after_read (db_at 1)) \<and>
   dbInit ok_engine (db_at 5) = (Inr True, after_read (db_at 5))"
  using dbInit_dispatch [of reject_version_read "db_at 0"] dbInit_dispatch [of ok_engine "db_at 0"]
    dbInit_dispatch [of ok_engine "db_at 1"] dbInit_dispatch [of ok_engine "db_at 5"]
    dbCreate_ok [of "after_read (db_at 0)"]
  by (simp add: reject_version_read_def ok_engine_def db_at_def DB_VERSION_def dbMigrate_def)

text \<open>
  C5 fails on the code. On a store at version 0, with an engine that rejects nothing and
  the bindings of the file alone, the read of \<^verbatim>\<open>DBConnectionPromise\<close> throws a
  \<^verbatim>\<open>ReferenceError\<close> before \<^verbatim>\<open>Sqlite.openConnection\<close> is called: no
  statement is issued, the store stays at version 0 and no table or index of the catalog
  exists.
\<close>

theorem fresh_store_left_untouched:
  "fst (step as_written Access (init_world (db_at 0))) =
     Some (Inl (ReferenceError ''Ci is not defined'')) \<and>
   fst (run as_written [Access, Settle 0] (init_world (db_at 0))) = [] \<and>
   opens (snd (run as_written [Access, Settle 0] (init_world (db_at 0)))) = 0 \<and>
   promises (snd (run as_written [Access, Settle 0] (init_world (db_at 0)))) = [] \<and>
   issued (db (snd (run as_written [Access, Settle 0] (init_world (db_at 0))))) = [] \<and>
   user_version (db (snd (run as_written [Access, Settle 0] (init_world (db_at 0))))) = 0 \<and>
   \<not> table_exists (db (snd (run as_written [Access, Settle 0] (init_world (db_at 0)))))
       ''squirrel_tabs'' \<and>
   \<not> index_exists (db (snd (run as_written [Access, Settle 0] (init_world (db_at 0)))))
       ''squirrel_tabs_timestamp_index''"
proof -
  have u: "\<not> Ci_bound as_written"
    by (simp add: as_written_def)
  have a: "fst (step as_written Access (init_world (db_at 0))) =
      Some (Inl (ReferenceError ''Ci is not defined''))"
    by (simp add: access_unbound [OF u])
  show ?thesis
    unfolding run_unbound [OF u]
    using a by (simp add: init_fields db_at_def table_exists_def index_exists_def SCHEMA_def)
qed

text \<open>
  C6. When the store opens and \<^verbatim>\<open>_dbInit\<close> rejects with \<open>ex\<close>, the promise is
  never resolved with a connection: in every reachable state it is absent, pending or
  rejected with \<open>ex\<close>. Completing the task of a pending acquisition closes the
  connection and rejects with \<open>ex\<close>; in every state where the promise is rejected the
  connection has been closed once. No observer is registered, and every caller holds
  the one promise.
\<close>

theorem init_failure_closes_then_rejects:
  assumes "run eng es (init_world d0) = (rs, w)"
      and "open_outcome eng = None" and "dbInit eng d0 = (Inl ex, d1)"
  shows "(promises w = [] \<or> promises w = [Pending] \<or> promises w = [Rejected ex]) \<and>
         observers w = [] \<and> registrations w = 0 \<and>
         (promises w = [Rejected ex] \<longrightarrow>
            connections w = [\<lparr>conn_closed = True, isMigrated = None\<rparr>] \<and>
            db w = close_db d1 \<and> closes (db w) = Suc (closes d0)) \<and>
         (promises w = [Pending] \<longrightarrow>
            settle eng 0 w =
              shape (Rejected ex) [\<lparr>conn_closed = True, isMigrated = None\<rparr>] (close_db d1) [] 0) \<and>
         (\<forall>r \<in> set rs. r = 0 \<and> (promises w ! r = Pending \<or> promises w ! r = Rejected ex))"
proof -
  have lc: "lifecycle eng d0 w"
    by (rule lifecycle_reach [OF assms(1)])
  note cases = lifecycle_rejecting [OF lc assms(2,3)]
  have cl: "closes (close_db d1) = Suc (closes d0)"
    using dbInit_closes [of eng d0] assms(3) by (simp add: close_db_closes)
  have pend: "settle eng 0 (shape Pending [] d0 [] 0) =
      shape (Rejected ex) [\<lparr>conn_closed = True, isMigrated = None\<rparr>] (close_db d1) [] 0"
    using assms(2,3) by (simp add: settle_pending)
  have rs: "r = 0 \<and> (promises w ! r = Pending \<or> promises w ! r = Rejected ex)" if "r \<in> set rs" for r
  proof -
    from that assms(1) have c: "dbConnectionPromise w = Some r"
      using run_cached [of r eng es "init_world d0"] by simp
    with cases show ?thesis
      by (auto simp: init_fields shape_fields)
  qed
  from cases cl pend have
    "(promises w = [] \<or> promises w = [Pending] \<or> promises w = [Rejected ex]) \<and>
     observers w = [] \<and> registrations w = 0 \<and>
     (promises w = [Rejected ex] \<longrightarrow>
        connections w = [\<lparr>conn_closed = True, isMigrated = None\<rparr>] \<and>
        db w = close_db d1 \<and> closes (db w) = Suc (closes d0)) \<and>
     (promises w = [Pending] \<longrightarrow>
        settle eng 0 w =
          shape (Rejected ex) [\<lparr>conn_closed = True, isMigrated = None\<rparr>] (close_db d1) [] 0)"
    by (auto simp: init_fields shape_fields)
  with rs show ?thesis by blast
qed

theorem init_failure_closes_then_rejects_witness:
  "open_outcome reject_version_read = None \<and>
   dbInit reject_version_read (db_at 0) = (Inl (EngineError ''disk I/O error''), after_read (db_at 0)) \<and>
   fst (run reject_version_read [Access, Settle 0] (init_world (db_at 0))) = [0] \<and>
   promises (snd (run reject_version_read [Access, Settle 0] (init_world (db_at 0)))) =
     [Rejected (EngineError ''disk I/O error'')] \<and>
   connections (snd (run reject_version_read [Access, Settle 0] (init_world (db_at 0)))) =
     [\<lparr>conn_closed = True, isMigrated = None\<rparr>] \<and>
   closes (db (snd (run reject_version_read [Access, Settle 0] (init_world (db_at 0))))) = 1 \<and>
   promises (settle reject_version_read 0
     (snd (run reject_version_read [Access] (init_world (db_at 0))))) =
     [Rejected (EngineError ''disk I/O error'')]"
proof -
  have o: "open_outcome reject_version_read = None"
    by (simp add: reject_version_read_def ok_engine_def)
  have i: "dbInit reject_version_read (db_at 0) =
      (Inl (EngineError ''disk I/O error''), after_read (db_at 0))"
    by (rule dbInit_read_rejected) (simp add: reject_version_read_def)
  have r: "run reject_version_read [Access, Settle 0] (init_world (db_at 0)) =
      ([0], shape (Rejected (EngineError ''disk I/O error''))
              [\<lparr>conn_closed = True, isMigrated = None\<rparr>] (close_db (after_read (db_at 0))) [] 0)"
    by (rule acquire_fail [OF o i]) (simp add: reject_version_read_def ok_engine_def)
  have b: "Ci_bound reject_version_read"
    by (simp add: reject_version_read_def ok_engine_def)
  have r1: "run reject_version_read [Access] (init_world (db_at 0)) =
      ([0], shape Pending [] (db_at 0) [] 0)"
    by (simp add: access_init [OF b])
  from init_failure_closes_then_rejects [OF run_pair o i, of "[Access, Settle 0]"]
    init_failure_closes_then_rejects [OF run_pair o i, of "[Access]"]
  show ?thesis
    unfolding r r1 using o i by (simp add: shape_fields closes_def db_at_def)
qed

text \<open>
  C7 fails on the code. On a store at \<open>DB_VERSION\<close>, after the acquisition has
  resolved and the connection carries \<^verbatim>\<open>isMigrated = false\<close>, a call of
  \<^verbatim>\<open>getDbMigrationPromise\<close> throws a \<^verbatim>\<open>TypeError\<close>: the property
  \<^verbatim>\<open>_dbMigrationPromiseDeferred\<close> it reads is defined nowhere. The call throws in
  the initial state as well.
\<close>

theorem getDbMigrationPromise_throws:
  "promises (snd (run ok_engine [Access, Settle 0] (init_world (db_at 1)))) = [Resolved 0] \<and>
   connections (snd (run ok_engine [Access, Settle 0] (init_world (db_at 1)))) =
     [\<lparr>conn_closed = False, isMigrated = Some False\<rparr>] \<and>
   getDbMigrationPromise (snd (run ok_engine [Access, Settle 0] (init_world (db_at 1)))) =
     Inl (TypeError ''this._dbMigrationPromiseDeferred is undefined'') \<and>
   getDbMigrationPromise (init_world (db_at 1)) =
     Inl (TypeError ''this._dbMigrationPromiseDeferred is undefined'')"
proof -
  have "dbInit ok_engine (db_at 1) = (Inr False, after_read (db_at 1))"
    using dbInit_at [of ok_engine 1] by (simp add: ok_engine_def DB_VERSION_def)
  then have "run ok_engine [Access, Settle 0] (init_world (db_at 1)) =
      ([0], shape (Resolved 0) [\<lparr>conn_closed = False, isMigrated = Some False\<rparr>]
              (after_read (db_at 1)) [0] 1)"
    by (intro acquire_ok) (simp_all add: ok_engine_def)
  then show ?thesis
    by (simp add: shape_fields init_fields getDbMigrationPromise_def)
qed

text \<open>
  C8. In every reachable state \<^verbatim>\<open>addObserver\<close> has been called at most once, and
  once exactly when the promise is resolved. A registered observer belongs to the open
  connection the promise resolved with; a teardown notification then removes the
  observer and closes that connection. After a notification no observer is left, so the
  connection is closed at most once. A notification while no observer is registered, in
  particular while the promise is not resolved, changes nothing.
\<close>

theorem teardown_observer_once:
  assumes "run eng es (init_world d0) = (rs, w)"
  shows "registrations w \<le> 1 \<and>
         (registrations w = 1 \<longleftrightarrow> promises w = [Resolved 0]) \<and>
         (observers w = [] \<or> observers w = [0]) \<and>
         (observers w = [0] \<longrightarrow>
            promises w = [Resolved 0] \<and> closes (db w) = closes d0 \<and>
            (\<exists>b. connections w = [\<lparr>conn_closed = False, isMigrated = Some b\<rparr>] \<and>
                 connections (notify_teardown w) = [\<lparr>conn_closed = True, isMigrated = Some b\<rparr>]) \<and>
            closes (db (notify_teardown w)) = Suc (closes d0)) \<and>
         observers (notify_teardown w) = [] \<and>
         closes (db w) \<le> Suc (closes d0) \<and>
         (promises w \<noteq> [Resolved 0] \<longrightarrow> notify_teardown w = w) \<and>
         (observers w = [] \<longrightarrow> notify_teardown w = w)"
proof -
  have "lifecycle eng d0 w"
    by (rule lifecycle_reach [OF assms])
  from lifecycle_shapes [OF this] show ?thesis
    by (elim disjE exE)
      (simp_all add: init_fields shape_fields teardown_init teardown_idle teardown_ready
        dbInit_closes close_db_closes)
qed

theorem teardown_observer_once_witness:
  "registrations (snd (run ok_engine [Access, Settle 0] (init_world (db_at 0)))) = 1 \<and>
   promises (snd (run ok_engine [Access, Settle 0] (init_world (db_at 0)))) = [Resolved 0] \<and>
   observers (snd (run ok_engine [Access, Settle 0] (init_world (db_at 0)))) = [0] \<and>
   closes (db (notify_teardown (snd (run ok_engine [Access, Settle 0] (init_world (db_at 0)))))) = 1 \<and>
   observers (notify_teardown (snd (run ok_engine [Access, Settle 0] (init_world (db_at 0))))) = [] \<and>
   closes (db (snd (run ok_engine [Access, Settle 0, Teardown, Teardown] (init_world (db_at 0))))) \<le> 1 \<and>
   promises (snd (run ok_engine [Teardown] (init_world (db_at 0)))) = [] \<and>
   snd (run ok_engine [Teardown, Teardown] (init_world (db_at 0))) =
     snd (run ok_engine [Teardown] (init_world (db_at 0)))"
proof -
  let ?d1 = "snd (dbCreate ok_engine (after_read (db_at 0)))"
  have "dbInit ok_engine (db_at 0) = (Inr True, ?d1)"
    by (rule dbInit_creates) (simp_all add: ok_engine_def db_at_def dbCreate_resolves)
  then have r: "run ok_engine [Access, Settle 0] (init_world (db_at 0)) =
      ([0], shape (Resolved 0) [\<lparr>conn_closed = False, isMigrated = Some True\<rparr>] ?d1 [0] 1)"
    by (intro acquire_ok) (simp_all add: ok_engine_def)
  have o: "observers (snd (run ok_engine [Access, Settle 0] (init_world (db_at 0)))) = [0]"
    unfolding r by (simp add: shape_fields)
  have p: "promises (snd (run ok_engine [Teardown] (init_world (db_at 0)))) = []"
    by (simp add: teardown_init init_fields)
  have t: "snd (run ok_engine [Teardown, Teardown] (init_world (db_at 0))) =
      notify_teardown (snd (run ok_engine [Teardown] (init_world (db_at 0))))"
    by simp
  have c0: "closes (db_at 0) = 0"
    by (simp add: closes_def db_at_def)
  from teardown_observer_once [OF run_pair, of ok_engine "[Access, Settle 0]" "db_at 0"]
    teardown_observer_once [OF run_pair, of ok_engine "[Access, Settle 0, Teardown, Teardown]" "db_at 0"]
    teardown_observer_once [OF run_pair, of ok_engine "[Teardown]" "db_at 0"]
    o p c0 show ?thesis
    unfolding t by simp
qed

text \<open>
  C9. Once the cached promise is resolved or rejected, whatever events follow leave the
  cached promise and its state as they are: every later access returns that promise,
  \<^verbatim>\<open>Sqlite.openConnection\<close> is not called again, no connection is made and the
  stored version is not read again.
\<close>

theorem settled_is_terminal:
  assumes "run eng es (init_world d0) = (rs, w)"
      and "dbConnectionPromise w = Some p" and "promises w ! p = s" and "s \<noteq> Pending"
      and "run eng es' w = (rs', w')"
  shows "dbConnectionPromise w' = Some p \<and> promises w' = promises w \<and> promises w' ! p = s \<and>
         opens w' = opens w \<and> length (connections w') = length (connections w) \<and>
         version_reads (db w') = version_reads (db w) \<and>
         length rs' = length (filter (\<lambda>ev. ev = Access) es') \<and>
         (\<forall>r \<in> set rs'. r = p)"
proof -
  have lc: "lifecycle eng d0 w"
    by (rule lifecycle_reach [OF assms(1)])
  from lifecycle_started [OF lc assms(2)] assms(3) have p: "p = 0" and ps: "promises w = [s]"
    by auto
  have w': "w' = snd (run eng es' w)" and rs': "rs' = fst (run eng es' w)"
    using assms(5) by simp_all
  have lc': "lifecycle eng d0 w'"
    unfolding w' by (rule lifecycle_run [OF lc])
  from settled_run [OF lc ps assms(4), of es'] have
    keep: "promises w' = [s]" "opens w' = opens w" "dbConnectionPromise w' = dbConnectionPromise w"
    by (simp_all add: w')
  have len: "length rs' = length (filter (\<lambda>ev. ev = Access) es')"
    unfolding rs' by (rule run_answers [OF assms(2)])
  have res: "\<forall>r \<in> set rs'. r = p"
    using run_results [OF lc, of es'] by (auto simp: rs' p)
  have "length (connections w') = length (connections w) \<and>
        version_reads (db w') = version_reads (db w)"
    using lifecycle_settled_obs [OF lc ps assms(4)] lifecycle_settled_obs [OF lc' keep(1) assms(4)]
    by simp
  with keep ps p assms(2,3) len res show ?thesis
    by simp
qed

theorem settled_is_terminal_witness:
  "dbConnectionPromise (snd (run ok_engine [Access, Settle 0] (init_world (db_at 0)))) = Some 0 \<and>
   promises (snd (run ok_engine [Access, Settle 0] (init_world (db_at 0)))) ! 0 = Resolved 0 \<and>
   Resolved 0 \<noteq> Pending \<and>
   promises (snd (run ok_engine [Access, Settle 0, Teardown, Access]
     (snd (run ok_engine [Access, Settle 0] (init_world (db_at 0)))))) ! 0 = Resolved 0 \<and>
   opens (snd (run ok_engine [Access, Settle 0, Teardown, Access]
     (snd (run ok_engine [Access, Settle 0] (init_world (db_at 0)))))) = 1 \<and>
   length (fst (run ok_engine [Access, Settle 0, Teardown, Access]
     (snd (run ok_engine [Access, Settle 0] (init_world (db_at 0)))))) = 2"
proof -
  let ?d1 = "snd (dbCreate ok_engine (after_read (db_at 0)))"
  have "dbInit ok_engine (db_at 0) = (Inr True, ?d1)"
    by (rule dbInit_creates) (simp_all add: ok_engine_def db_at_def dbCreate_resolves)
  then have r: "run ok_engine [Access, Settle 0] (init_world (db_at 0)) =
      ([0], shape (Resolved 0) [\<lparr>conn_closed = False, isMigrated = Some True\<rparr>] ?d1 [0] 1)"
    by (intro acquire_ok) (simp_all add: ok_engine_def)
  have c: "dbConnectionPromise (snd (run ok_engine [Access, Settle 0] (init_world (db_at 0)))) = Some 0"
    and p: "promises (snd (run ok_engine [Access, Settle 0] (init_world (db_at 0)))) ! 0 = Resolved 0"
    and o: "opens (snd (run ok_engine [Access, Settle 0] (init_world (db_at 0)))) = 1"
    unfolding r by (simp_all add: shape_fields)
  have n: "Resolved 0 \<noteq> Pending"
    by simp
  from settled_is_terminal [OF run_pair c p n run_pair, of "[Access, Settle 0, Teardown, Access]"] c p o
  show ?thesis
    by simp
qed

text \<open>
  C10. At every stored version other than 0 and \<open>DB_VERSION\<close>, larger ones included,
  \<^verbatim>\<open>_dbInit\<close> hands over to \<^verbatim>\<open>_dbMigrate\<close>, which resolves at once: beyond the
  version read no operation is issued, no statement is applied, the stored version stays
  as it was, and \<^verbatim>\<open>_dbInit\<close> resolves to true.
\<close>

theorem dbInit_other_version_placeholder:
  assumes "version_outcome eng = None" and "user_version d \<noteq> 0" and "user_version d \<noteq> DB_VERSION"
  shows "dbInit eng d = (Inr True, snd (dbMigrate eng (after_read d) (user_version d))) \<and>
         dbMigrate eng (after_read d) (user_version d) = (Inr (after_read d), after_read d) \<and>
         user_version (snd (dbInit eng d)) = user_version d \<and>
         applied (snd (dbInit eng d)) = applied d \<and>
         issued (snd (dbInit eng d)) = issued d @ [OpGetSchemaVersion]"
  using assms
  by (simp add: after_read_def dbInit_def getSchemaVersion_def dbMigrate_def)

theorem dbInit_other_version_placeholder_witness:
  "version_outcome ok_engine = None \<and> user_version (db_at 5) \<noteq> 0 \<and>
   user_version (db_at 5) \<noteq> DB_VERSION \<and> DB_VERSION < user_version (db_at 5) \<and>
   fst (dbInit ok_engine (db_at 5)) = Inr True \<and>
   user_version (snd (dbInit ok_engine (db_at 5))) = 5 \<and>
   issued (snd (dbInit ok_engine (db_at 5))) = [OpGetSchemaVersion]"
  using dbInit_other_version_placeholder [of ok_engine "db_at 5"]
  by (simp add: ok_engine_def db_at_def DB_VERSION_def after_read_def dbMigrate_def)

end
